theory Spec2Isabelle
  imports Complex_Main "HOL-Library.Sublist" "HOL-Library.Multiset"
begin

section \<open>Player scoring statistics: a model of \<^verbatim>\<open>parse_and_analyze_stats.py\<close>\<close>

text \<open>
  The script reads per-team game logs, collects every player's points, and reports the
  mean, the lower semideviation, a coefficient of variation and three percentiles per
  player, sorted by semideviation.

  Modelling decisions, all of them visible in the definitions below:
  \<^item> in the pipeline a Python \<^verbatim>\<open>float\<close> is a \<^typ>\<open>real\<close>: arithmetic is exact, there is
    no rounding, no overflow, no infinity and no NaN; \<^verbatim>\<open>percentile\<close> and
    \<^verbatim>\<open>lower_semideviation\<close> are modelled a second time with the range, the infinities
    and the NaN of a double, where overflow shows;
  \<^item> a Python \<^verbatim>\<open>str\<close> is a \<^typ>\<open>string\<close>, one \<^typ>\<open>char\<close> per character;
  \<^item> an exception is a value: a function that can raise returns \<open>py_error + 'a\<close>,
    with \<open>Inl\<close> the exception; \<^verbatim>\<open>None\<close> is \<open>None\<close> of an option type;
  \<^item> the dictionary \<^verbatim>\<open>player_data\<close> is an association list in insertion order, which is
    the order \<^verbatim>\<open>data.items()\<close> iterates in;
  \<^item> the library functions \<^verbatim>\<open>float\<close> and \<^verbatim>\<open>datetime.strptime\<close> are parameters of the
    model (\<open>None\<close> stands for their \<^verbatim>\<open>ValueError\<close>); \<^verbatim>\<open>csv.DictReader\<close> is
    represented by the rows it yields.
\<close>

subsection \<open>Exceptions and the partial operations of Python\<close>

datatype py_error = IndexError | ZeroDivisionError | ValueError | OverflowError | OSError

text \<open>List subscript \<^verbatim>\<open>xs[i]\<close>: a negative index counts from the end, anything
  outside the list raises.\<close>

definition py_index :: "'a list \<Rightarrow> int \<Rightarrow> py_error + 'a" where
  "py_index xs i =
     (if 0 \<le> i \<and> i < int (length xs) then Inr (xs ! nat i)
      else if i < 0 \<and> - int (length xs) \<le> i then Inr (xs ! nat (int (length xs) + i))
      else Inl IndexError)"

text \<open>True division \<^verbatim>\<open>a / b\<close> and \<^verbatim>\<open>math.sqrt\<close>.\<close>

definition py_div :: "real \<Rightarrow> real \<Rightarrow> py_error + real" where
  "py_div a b = (if b = 0 then Inl ZeroDivisionError else Inr (a / b))"

definition py_sqrt :: "real \<Rightarrow> py_error + real" where
  "py_sqrt x = (if x < 0 then Inl ValueError else Inr (sqrt x))"

text \<open>\<^verbatim>\<open>s.endswith(suffix)\<close>.\<close>

definition endswith :: "string \<Rightarrow> string \<Rightarrow> bool" where
  "endswith s suf = (length suf \<le> length s \<and> drop (length s - length suf) s = suf)"

subsection \<open>File selection (line 29)\<close>

definition is_team_file :: "string \<Rightarrow> bool" where
  "is_team_file filename = (endswith filename ''.txt'' \<and> length filename = 7)"

subsection \<open>\<^verbatim>\<open>percentile\<close> (lines 65--86)\<close>

definition percentile :: "real list \<Rightarrow> real \<Rightarrow> py_error + real option" where
  "percentile sorted_list pct =
     (let n = length sorted_list in
      if n = 0 then Inr None
      else if n = 1 then
        (case py_index sorted_list 0 of Inl e \<Rightarrow> Inl e | Inr v \<Rightarrow> Inr (Some v))
      else
        let index = real (n - 1) * pct;
            lower_idx = \<lfloor>index\<rfloor>;
            upper_idx = \<lceil>index\<rceil>
        in if lower_idx = upper_idx then
             (case py_index sorted_list lower_idx of
                Inl e \<Rightarrow> Inl e
              | Inr v \<Rightarrow> Inr (Some v))
           else
             (case py_index sorted_list lower_idx of
                Inl e \<Rightarrow> Inl e
              | Inr lower_val \<Rightarrow>
                  (case py_index sorted_list upper_idx of
                     Inl e \<Rightarrow> Inl e
                   | Inr upper_val \<Rightarrow>
                       let frac = index - real_of_int lower_idx
                       in Inr (Some (lower_val + (upper_val - lower_val) * frac)))))"

text \<open>The percentile estimator as the specification words it: no percentile of an empty
  sequence, the sole element of a singleton, and otherwise linear interpolation between
  the ranks \<open>\<lfloor>idx\<rfloor>\<close> and \<open>\<lceil>idx\<rceil>\<close> of \<open>idx = (n - 1) * p\<close>.\<close>

definition percentile_spec :: "real list \<Rightarrow> real \<Rightarrow> real option" where
  "percentile_spec xs p =
     (if length xs = 0 then None
      else if length xs = 1 then Some (xs ! 0)
      else
        let idx = (real (length xs) - 1) * p;
            lo = nat \<lfloor>idx\<rfloor>;
            hi = nat \<lceil>idx\<rceil>
        in if lo = hi then Some (xs ! lo)
           else Some (xs ! lo + (xs ! hi - xs ! lo) * (idx - real lo)))"

subsection \<open>\<^verbatim>\<open>lower_semideviation\<close> (lines 88--106)\<close>

definition lower_semideviation :: "real list \<Rightarrow> py_error + real" where
  "lower_semideviation pts =
     (if pts = [] then Inr 0
      else
        let n = length pts in
        case py_div (sum_list pts) (real n) of
          Inl e \<Rightarrow> Inl e
        | Inr mu \<Rightarrow>
            let below_mean = filter (\<lambda>p. p < mu) pts in
            if length below_mean \<le> 1 then Inr 0
            else
              let squared_diffs = map (\<lambda>p. (mu - p) ^ 2) below_mean in
              case py_div (sum_list squared_diffs) (real (length below_mean)) of
                Inl e \<Rightarrow> Inl e
              | Inr semivariance \<Rightarrow> py_sqrt semivariance)"

text \<open>The semideviation as the specification words it: the root of the mean squared
  distance to the mean \<open>mu\<close>, taken over the points strictly below \<open>mu\<close> and divided by
  their number; zero when at most one point lies below the mean.\<close>

definition semideviation_spec :: "real list \<Rightarrow> real" where
  "semideviation_spec pts =
     (if pts = [] then 0
      else
        let mu = sum_list pts / real (length pts);
            B = filter (\<lambda>b. b < mu) pts
        in if length B \<le> 1 then 0
           else sqrt ((\<Sum>b\<leftarrow>B. (mu - b) ^ 2) / real (length B)))"

subsection \<open>Aggregation: \<^verbatim>\<open>parse_all_team_files\<close> (lines 11--63)\<close>

text \<open>A \<^verbatim>\<open>datetime\<close> parsed under \<^verbatim>\<open>%m/%d/%Y\<close> has a zero time of day, so \<^verbatim>\<open>>\<close> on
  two of them compares year, month and day lexicographically.\<close>

record date =
  year :: nat
  month :: nat
  day :: nat

definition date_gt :: "date \<Rightarrow> date \<Rightarrow> bool" where
  "date_gt a b =
     (year b < year a \<or>
      (year a = year b \<and> (month b < month a \<or> (month a = month b \<and> day b < day a))))"

definition DATE_FORMAT :: string where
  "DATE_FORMAT = ''%m/%d/%Y''"

text \<open>The value stored per player, and the value the \<^verbatim>\<open>defaultdict\<close> creates.\<close>

record player_info =
  points :: "real list"
  most_recent_date :: "date option"
  current_team :: "string option"

definition default_info :: player_info where
  "default_info = \<lparr>points = [], most_recent_date = None, current_team = None\<rparr>"

type_synonym player_data = "(string \<times> player_info) list"

text \<open>\<^verbatim>\<open>player_data[k]\<close> read after the key exists, and an in-place change of
  \<^verbatim>\<open>player_data[k]\<close>, which first inserts the default value at the end when the key is
  new.\<close>

definition getitem :: "player_data \<Rightarrow> string \<Rightarrow> player_info" where
  "getitem d k = (case map_of d k of None \<Rightarrow> default_info | Some i \<Rightarrow> i)"

fun modify :: "string \<Rightarrow> (player_info \<Rightarrow> player_info) \<Rightarrow> player_data \<Rightarrow> player_data" where
  "modify k f [] = [(k, f default_info)]"
| "modify k f ((k', i) # rest) =
     (if k' = k then (k', f i) # rest else (k', i) # modify k f rest)"

text \<open>A row that passed every check of lines 34--52.\<close>

record game_record =
  player_name :: string
  game_points :: real
  game_date :: date
  team_str :: string

text \<open>Lines 55--61.\<close>

definition add_game :: "player_data \<Rightarrow> game_record \<Rightarrow> player_data" where
  "add_game d r =
     (let d1 = modify (player_name r) (\<lambda>i. i\<lparr>points := points i @ [game_points r]\<rparr>) d;
          current_recent = most_recent_date (getitem d1 (player_name r))
      in if (case current_recent of None \<Rightarrow> True | Some c \<Rightarrow> date_gt (game_date r) c)
         then modify (player_name r) (\<lambda>i. i\<lparr>current_team := Some (team_str r)\<rparr>)
                (modify (player_name r) (\<lambda>i. i\<lparr>most_recent_date := Some (game_date r)\<rparr>) d1)
         else d1)"

text \<open>A row of \<^verbatim>\<open>csv.DictReader\<close>: column name to cell; \<^verbatim>\<open>row.get\<close> gives \<^verbatim>\<open>None\<close> for
  a column that the header or the line lacks. \<^verbatim>\<open>not x\<close> holds of \<^verbatim>\<open>None\<close> and of the
  empty string.\<close>

type_synonym row = "string \<rightharpoonup> string"

definition falsy :: "string option \<Rightarrow> bool" where
  "falsy x = (case x of None \<Rightarrow> True | Some s \<Rightarrow> s = [])"

text \<open>Lines 34--52, with \<open>None\<close> for each \<^verbatim>\<open>continue\<close>.\<close>

definition parse_row ::
  "(string \<Rightarrow> real option) \<Rightarrow> (string \<Rightarrow> string \<Rightarrow> date option) \<Rightarrow> row \<Rightarrow> game_record option"
where
  "parse_row float_of strptime row =
     (let name = row ''PLAYER'';
          pts_str = row ''PTS'';
          date_str = row ''GAME DATE'';
          team = row ''TEAM''
      in if falsy name \<or> falsy pts_str \<or> falsy date_str \<or> falsy team then None
         else
           case float_of (the pts_str) of
             None \<Rightarrow> None
           | Some pts \<Rightarrow>
               (case strptime (the date_str) DATE_FORMAT of
                  None \<Rightarrow> None
                | Some gd \<Rightarrow>
                    Some \<lparr>player_name = the name, game_points = pts,
                          game_date = gd, team_str = the team\<rparr>))"

text \<open>The body of the loop over the rows of one file.\<close>

definition process_row ::
  "(string \<Rightarrow> real option) \<Rightarrow> (string \<Rightarrow> string \<Rightarrow> date option) \<Rightarrow>
     player_data \<Rightarrow> row \<Rightarrow> player_data"
where
  "process_row float_of strptime d row =
     (case parse_row float_of strptime row of None \<Rightarrow> d | Some r \<Rightarrow> add_game d r)"

fun process_rows ::
  "(string \<Rightarrow> real option) \<Rightarrow> (string \<Rightarrow> string \<Rightarrow> date option) \<Rightarrow>
     player_data \<Rightarrow> row list \<Rightarrow> player_data"
where
  "process_rows float_of strptime d [] = d"
| "process_rows float_of strptime d (row # rows) =
     process_rows float_of strptime (process_row float_of strptime d row) rows"

text \<open>A directory is the list of its entries in the order \<^verbatim>\<open>os.listdir\<close> gives them;
  an entry carries its name and what opening and reading it gives: the rows, or the
  exception. Only selected files are opened.\<close>

type_synonym directory = "(string \<times> (py_error + row list)) list"

fun parse_files ::
  "(string \<Rightarrow> real option) \<Rightarrow> (string \<Rightarrow> string \<Rightarrow> date option) \<Rightarrow>
     player_data \<Rightarrow> directory \<Rightarrow> py_error + player_data"
where
  "parse_files float_of strptime d [] = Inr d"
| "parse_files float_of strptime d ((filename, content) # rest) =
     (if is_team_file filename then
        (case content of
           Inl e \<Rightarrow> Inl e
         | Inr rows \<Rightarrow>
             parse_files float_of strptime (process_rows float_of strptime d rows) rest)
      else parse_files float_of strptime d rest)"

definition parse_all_team_files ::
  "(string \<Rightarrow> real option) \<Rightarrow> (string \<Rightarrow> string \<Rightarrow> date option) \<Rightarrow>
     directory \<Rightarrow> py_error + player_data"
where
  "parse_all_team_files float_of strptime dir = parse_files float_of strptime [] dir"

subsection \<open>The report: \<^verbatim>\<open>main\<close> (lines 108--133)\<close>

record stat_row =
  player :: string
  team :: "string option"
  mean_pts :: real
  std_dev :: real
  cv :: real
  p10 :: "real option"
  p20 :: "real option"
  p30 :: "real option"
  games_played :: nat

text \<open>Line 123.\<close>

definition coefficient_of_variation :: "real \<Rightarrow> real \<Rightarrow> py_error + real" where
  "coefficient_of_variation sd mean =
     (if \<bar>mean\<bar> > 1 / 1000000000 then py_div sd mean else Inr 0)"

text \<open>Lines 114--130, the body of the loop over the players: \<open>Inr None\<close> is the
  \<^verbatim>\<open>continue\<close> of line 119, \<open>Inr (Some r)\<close> the tuple appended to \<^verbatim>\<open>results\<close>.\<close>

definition build_row :: "string \<Rightarrow> player_info \<Rightarrow> py_error + stat_row option" where
  "build_row name info =
     (let pts_list = points info;
          n_games = length pts_list
      in if n_games = 0 then Inr None
         else
           case py_div (sum_list pts_list) (real n_games) of
             Inl e \<Rightarrow> Inl e
           | Inr mean \<Rightarrow>
           case lower_semideviation pts_list of
             Inl e \<Rightarrow> Inl e
           | Inr sd \<Rightarrow>
           case coefficient_of_variation sd mean of
             Inl e \<Rightarrow> Inl e
           | Inr c \<Rightarrow>
           let sorted_pts = sort pts_list in
           case percentile sorted_pts (1 / 10) of
             Inl e \<Rightarrow> Inl e
           | Inr q10 \<Rightarrow>
           case percentile sorted_pts (2 / 10) of
             Inl e \<Rightarrow> Inl e
           | Inr q20 \<Rightarrow>
           case percentile sorted_pts (3 / 10) of
             Inl e \<Rightarrow> Inl e
           | Inr q30 \<Rightarrow>
               Inr (Some \<lparr>player = name, team = current_team info, mean_pts = mean,
                          std_dev = sd, cv = c, p10 = q10, p20 = q20, p30 = q30,
                          games_played = n_games\<rparr>))"

fun build_rows :: "player_data \<Rightarrow> stat_row list \<Rightarrow> py_error + stat_row list" where
  "build_rows [] results = Inr results"
| "build_rows ((name, info) # rest) results =
     (case build_row name info of
        Inl e \<Rightarrow> Inl e
      | Inr None \<Rightarrow> build_rows rest results
      | Inr (Some r) \<Rightarrow> build_rows rest (results @ [r]))"

text \<open>Line 133: \<^verbatim>\<open>list.sort\<close> with a key is a stable sort; \<^const>\<open>sort_key\<close> is the
  stable insertion sort.\<close>

definition report :: "player_data \<Rightarrow> py_error + stat_row list" where
  "report data =
     (case build_rows data [] of
        Inl e \<Rightarrow> Inl e
      | Inr results \<Rightarrow> Inr (sort_key std_dev results))"

definition main ::
  "(string \<Rightarrow> real option) \<Rightarrow> (string \<Rightarrow> string \<Rightarrow> date option) \<Rightarrow>
     directory \<Rightarrow> py_error + stat_row list"
where
  "main float_of strptime dir =
     (case parse_all_team_files float_of strptime dir of
        Inl e \<Rightarrow> Inl e
      | Inr data \<Rightarrow> report data)"

subsection \<open>The same two functions with the range of a double\<close>

text \<open>
  The definitions above compute in exact arithmetic. Python's \<^verbatim>\<open>float\<close> is an IEEE 754
  double: it has two infinities and NaN, and an operation on finite operands whose exact
  result is out of range gives an infinity (\<^verbatim>\<open>+\<close>, \<^verbatim>\<open>-\<close>, \<^verbatim>\<open>*\<close>, \<^verbatim>\<open>/\<close>) or raises
  \<^verbatim>\<open>OverflowError\<close> (\<^verbatim>\<open>**\<close>). The type \<open>pyfloat\<close> and the operations below model that
  range: a finite result is the exact real (rounding inside the range is not modelled),
  and a result whose magnitude reaches \<open>overflow_threshold\<close>, the least magnitude that
  rounds to an infinity, is the infinity. Comparisons with NaN are false.
\<close>

datatype pyfloat = Finite real | PosInf | NegInf | NaN

definition DBL_MAX :: real where
  "DBL_MAX = 2 ^ 1024 - 2 ^ 971"

definition overflow_threshold :: real where
  "overflow_threshold = 2 ^ 1024 - 2 ^ 970"

text \<open>The float for an exact result \<open>r\<close> of an operation on finite operands.\<close>

definition f_result :: "real \<Rightarrow> pyfloat" where
  "f_result r =
     (if overflow_threshold \<le> r then PosInf
      else if r \<le> - overflow_threshold then NegInf
      else Finite r)"

fun f_neg :: "pyfloat \<Rightarrow> pyfloat" where
  "f_neg (Finite a) = Finite (- a)"
| "f_neg PosInf = NegInf"
| "f_neg NegInf = PosInf"
| "f_neg NaN = NaN"

fun f_add :: "pyfloat \<Rightarrow> pyfloat \<Rightarrow> pyfloat" where
  "f_add (Finite a) (Finite b) = f_result (a + b)"
| "f_add NaN y = NaN"
| "f_add x NaN = NaN"
| "f_add PosInf NegInf = NaN"
| "f_add NegInf PosInf = NaN"
| "f_add PosInf y = PosInf"
| "f_add x PosInf = PosInf"
| "f_add NegInf y = NegInf"
| "f_add x NegInf = NegInf"

definition f_sub :: "pyfloat \<Rightarrow> pyfloat \<Rightarrow> pyfloat" where
  "f_sub x y = f_add x (f_neg y)"

fun f_mul :: "pyfloat \<Rightarrow> pyfloat \<Rightarrow> pyfloat" where
  "f_mul (Finite a) (Finite b) = f_result (a * b)"
| "f_mul NaN y = NaN"
| "f_mul x NaN = NaN"
| "f_mul (Finite a) y = (if a = 0 then NaN else if 0 < a then y else f_neg y)"
| "f_mul x (Finite b) = (if b = 0 then NaN else if 0 < b then x else f_neg x)"
| "f_mul PosInf y = y"
| "f_mul NegInf y = f_neg y"


text \<open>\<^verbatim>\<open>x ** 2\<close>: out of range for a finite \<open>x\<close> raises, underflow does not.\<close>

definition f_pow2 :: "pyfloat \<Rightarrow> py_error + pyfloat" where
  "f_pow2 x =
     (case x of
        Finite a \<Rightarrow> if overflow_threshold \<le> a * a then Inl OverflowError
                    else Inr (Finite (a * a))
      | PosInf \<Rightarrow> Inr PosInf
      | NegInf \<Rightarrow> Inr PosInf
      | NaN \<Rightarrow> Inr NaN)"


definition py_floor :: "pyfloat \<Rightarrow> py_error + int" where
  "py_floor x =
     (case x of Finite a \<Rightarrow> Inr \<lfloor>a\<rfloor> | PosInf \<Rightarrow> Inl OverflowError
      | NegInf \<Rightarrow> Inl OverflowError | NaN \<Rightarrow> Inl ValueError)"

definition py_ceil :: "pyfloat \<Rightarrow> py_error + int" where
  "py_ceil x =
     (case x of Finite a \<Rightarrow> Inr \<lceil>a\<rceil> | PosInf \<Rightarrow> Inl OverflowError
      | NegInf \<Rightarrow> Inl OverflowError | NaN \<Rightarrow> Inl ValueError)"


fun f_le :: "pyfloat \<Rightarrow> pyfloat \<Rightarrow> bool" where
  "f_le (Finite a) (Finite b) = (a \<le> b)"
| "f_le NaN y = False"
| "f_le x NaN = False"
| "f_le x PosInf = True"
| "f_le NegInf y = True"
| "f_le PosInf y = False"
| "f_le x NegInf = False"


text \<open>Line 102, \<^verbatim>\<open>[(mu - p)**2 for p in below_mean]\<close>: the first square that raises ends
  the comprehension.\<close>

fun squared_diffs :: "pyfloat \<Rightarrow> pyfloat list \<Rightarrow> py_error + pyfloat list" where
  "squared_diffs mu [] = Inr []"
| "squared_diffs mu (p # ps) =
     (case f_pow2 (f_sub mu p) of
        Inl e \<Rightarrow> Inl e
      | Inr s \<Rightarrow> (case squared_diffs mu ps of Inl e \<Rightarrow> Inl e | Inr ss \<Rightarrow> Inr (s # ss)))"








text \<open>Lines 65--86, returning with the result the subscripts that were evaluated, in
  order: every read of the list goes through \<open>subscript\<close>, which records its index.\<close>

definition subscript :: "'a list \<Rightarrow> int \<Rightarrow> int list \<Rightarrow> int list \<times> (py_error + 'a)" where
  "subscript xs i seen = (seen @ [i], py_index xs i)"

definition percentile_double ::
  "pyfloat list \<Rightarrow> pyfloat \<Rightarrow> int list \<times> (py_error + pyfloat option)"
where
  "percentile_double sorted_list pct =
     (let n = length sorted_list in
      if n = 0 then ([], Inr None)
      else if n = 1 then
        (case subscript sorted_list 0 [] of
           (seen, Inl e) \<Rightarrow> (seen, Inl e)
         | (seen, Inr v) \<Rightarrow> (seen, Inr (Some v)))
      else
        let index = f_mul (Finite (real (n - 1))) pct in
        case py_floor index of
          Inl e \<Rightarrow> ([], Inl e)
        | Inr lower_idx \<Rightarrow>
        case py_ceil index of
          Inl e \<Rightarrow> ([], Inl e)
        | Inr upper_idx \<Rightarrow>
            if lower_idx = upper_idx then
              (case subscript sorted_list lower_idx [] of
                 (seen, Inl e) \<Rightarrow> (seen, Inl e)
               | (seen, Inr v) \<Rightarrow> (seen, Inr (Some v)))
            else
              (case subscript sorted_list lower_idx [] of
                 (seen, Inl e) \<Rightarrow> (seen, Inl e)
               | (seen, Inr lower_val) \<Rightarrow>
                   (case subscript sorted_list upper_idx seen of
                      (seen', Inl e) \<Rightarrow> (seen', Inl e)
                    | (seen', Inr upper_val) \<Rightarrow>
                        let frac = f_sub index (Finite (real_of_int lower_idx))
                        in (seen', Inr (Some (f_add lower_val
                                   (f_mul (f_sub upper_val lower_val) frac)))))))"

subsection \<open>Auxiliary notions for stating the properties\<close>

text \<open>What lines 55--61 do to the value stored for the record's player: the points are
  appended, then date and team are replaced when no date is stored or the record's date
  is later.\<close>

definition info_after :: "player_info \<Rightarrow> game_record \<Rightarrow> player_info" where
  "info_after i r =
     (if (case most_recent_date i of None \<Rightarrow> True | Some c \<Rightarrow> date_gt (game_date r) c)
      then \<lparr>points = points i @ [game_points r],
            most_recent_date = Some (game_date r),
            current_team = Some (team_str r)\<rparr>
      else \<lparr>points = points i @ [game_points r],
            most_recent_date = most_recent_date i,
            current_team = current_team i\<rparr>)"

text \<open>Lines 55--61 run over a sequence of valid records, and the valid records of a
  directory in the order the loops of lines 27 and 33 meet them.\<close>

fun aggregate :: "player_data \<Rightarrow> game_record list \<Rightarrow> player_data" where
  "aggregate d [] = d"
| "aggregate d (r # rs) = aggregate (add_game d r) rs"

fun valid_records ::
  "(string \<Rightarrow> real option) \<Rightarrow> (string \<Rightarrow> string \<Rightarrow> date option) \<Rightarrow>
     directory \<Rightarrow> game_record list"
where
  "valid_records float_of strptime [] = []"
| "valid_records float_of strptime ((filename, content) # rest) =
     (if is_team_file filename then
        (case content of
           Inl e \<Rightarrow> []
         | Inr rows \<Rightarrow> List.map_filter (parse_row float_of strptime) rows)
      else []) @ valid_records float_of strptime rest"

text \<open>The invariant of the aggregation: the keys are distinct, and every stored value
  has at least one point, a date and a team.\<close>

definition complete_info :: "player_info \<Rightarrow> bool" where
  "complete_info i =
     (points i \<noteq> [] \<and> most_recent_date i \<noteq> None \<and> current_team i \<noteq> None)"

definition well_formed :: "player_data \<Rightarrow> bool" where
  "well_formed d = (distinct (map fst d) \<and> list_all (\<lambda>(k, i). complete_info i) d)"

text \<open>The results of the two library functions at the strings of the examples:
  \<^verbatim>\<open>float('abc')\<close> and \<^verbatim>\<open>strptime('2024-01-05', '%m/%d/%Y')\<close> raise \<^verbatim>\<open>ValueError\<close>.
  The tables say nothing about other strings; the general theorems hold for every
  \<open>float_of\<close> and \<open>strptime\<close>.\<close>

definition example_float :: "string \<Rightarrow> real option" where
  "example_float s =
     map_of [(''5'', 5), (''10'', 10), (''15'', 15), (''20'', 20), (''31.5'', 63 / 2)] s"

definition example_strptime :: "string \<Rightarrow> string \<Rightarrow> date option" where
  "example_strptime s fmt =
     (if fmt = ''%m/%d/%Y'' then
        map_of [(''01/01/2024'', \<lparr>year = 2024, month = 1, day = 1\<rparr>),
                (''01/05/2024'', \<lparr>year = 2024, month = 1, day = 5\<rparr>),
                (''12/25/2023'', \<lparr>year = 2023, month = 12, day = 25\<rparr>)] s
      else None)"

text \<open>Rows of an example file, built from the four required cells.\<close>

definition example_row :: "string \<Rightarrow> string \<Rightarrow> string \<Rightarrow> string \<Rightarrow> row" where
  "example_row name pts d t =
     [''PLAYER'' \<mapsto> name, ''PTS'' \<mapsto> pts, ''GAME DATE'' \<mapsto> d, ''TEAM'' \<mapsto> t]"

text \<open>An example directory: two team files and one entry that the file selection
  rejects and that could not be opened anyway. The fourth row of the first file has
  points that are no number, the fifth a date in another format.\<close>

definition example_dir :: directory where
  "example_dir =
     [(''ATL.txt'', Inr [example_row ''Ann'' ''5'' ''01/01/2024'' ''ATL'',
                         example_row ''Ann'' ''10'' ''01/05/2024'' ''ATL'',
                         example_row ''Bob'' ''20'' ''01/05/2024'' ''ATL'',
                         example_row ''Ann'' ''abc'' ''01/05/2024'' ''ATL'',
                         example_row ''Bob'' ''15'' ''2024-01-05'' ''ATL'']),
      (''notes.txt'', Inl OSError),
      (''BOS.txt'', Inr [example_row ''Ann'' ''15'' ''01/05/2024'' ''BOS'',
                         example_row ''Ann'' ''20'' ''12/25/2023'' ''BOS''])]"

section \<open>Properties\<close>

subsection \<open>Indexing and interpolation\<close>

lemma py_index_in_range:
  "0 \<le> i \<Longrightarrow> i < int (length xs) \<Longrightarrow> py_index xs i = Inr (xs ! nat i)"
  by (simp add: py_index_def)

lemma rank_bounds:
  fixes p :: real
  assumes "0 \<le> p" "p \<le> 1"
  shows "0 \<le> \<lfloor>real m * p\<rfloor>" "\<lfloor>real m * p\<rfloor> \<le> \<lceil>real m * p\<rceil>" "\<lceil>real m * p\<rceil> \<le> int m"
proof -
  have nonneg: "0 \<le> real m * p" using assms by simp
  then show "0 \<le> \<lfloor>real m * p\<rfloor>" by simp
  show "\<lfloor>real m * p\<rfloor> \<le> \<lceil>real m * p\<rceil>" by (rule floor_le_ceiling)
  have "real m * p \<le> real m * 1" using assms by (intro mult_left_mono) simp_all
  then have "real m * p \<le> real_of_int (int m)" by simp
  then show "\<lceil>real m * p\<rceil> \<le> int m" by (simp only: ceiling_le_iff)
qed

lemma percentile_eq_spec:
  assumes "0 \<le> p" "p \<le> 1"
  shows "percentile xs p = Inr (percentile_spec xs p)"
proof -
  consider "length xs = 0" | "length xs = 1" | "2 \<le> length xs" by linarith
  then show ?thesis
  proof cases
    case 1
    then show ?thesis by (simp add: percentile_def percentile_spec_def)
  next
    case 2
    then show ?thesis by (simp add: percentile_def percentile_spec_def py_index_def)
  next
    case 3
    define m where "m = length xs - 1"
    define idx where "idx = real m * p"
    have len: "length xs = Suc m" using 3 by (simp add: m_def)
    have lo0: "0 \<le> \<lfloor>idx\<rfloor>" and lohi: "\<lfloor>idx\<rfloor> \<le> \<lceil>idx\<rceil>" and him: "\<lceil>idx\<rceil> \<le> int m"
      unfolding idx_def using rank_bounds[OF assms] by blast+
    have ilo: "py_index xs \<lfloor>idx\<rfloor> = Inr (xs ! nat \<lfloor>idx\<rfloor>)"
    proof (rule py_index_in_range)
      show "0 \<le> \<lfloor>idx\<rfloor>" by (rule lo0)
      show "\<lfloor>idx\<rfloor> < int (length xs)" using lohi him len by linarith
    qed
    have ihi: "py_index xs \<lceil>idx\<rceil> = Inr (xs ! nat \<lceil>idx\<rceil>)"
    proof (rule py_index_in_range)
      show "0 \<le> \<lceil>idx\<rceil>" using lo0 lohi by linarith
      show "\<lceil>idx\<rceil> < int (length xs)" using him len by linarith
    qed
    have eq: "(nat \<lfloor>idx\<rfloor> = nat \<lceil>idx\<rceil>) = (\<lfloor>idx\<rfloor> = \<lceil>idx\<rceil>)"
    proof (rule eq_nat_nat_iff)
      show "0 \<le> \<lfloor>idx\<rfloor>" by (rule lo0)
      show "0 \<le> \<lceil>idx\<rceil>" using lo0 lohi by linarith
    qed
    have ridx: "(real (length xs) - 1) * p = idx" by (simp add: idx_def len)
    have ridx': "real (length xs - 1) * p = idx" by (simp add: idx_def m_def)
    have rlo: "real (nat \<lfloor>idx\<rfloor>) = real_of_int \<lfloor>idx\<rfloor>" using lo0 by simp
    from 3 have n0: "length xs \<noteq> 0" "length xs \<noteq> 1" by linarith+
    show ?thesis
      unfolding percentile_def percentile_spec_def Let_def
      by (simp only: n0 if_False ridx ridx' ilo ihi eq rlo sum.case if_distrib[of Inr])
  qed
qed

lemma interp_between:
  fixes a b t :: real
  assumes "a \<le> b" "0 \<le> t" "t \<le> 1"
  shows "a \<le> a + (b - a) * t" "a + (b - a) * t \<le> b"
proof -
  have "0 \<le> (b - a) * t" using assms by simp
  then show "a \<le> a + (b - a) * t" by simp
  have "(b - a) * t \<le> (b - a) * 1" using assms by (intro mult_left_mono) simp_all
  then show "a + (b - a) * t \<le> b" by simp
qed

lemma percentile_nonempty:
  assumes "xs \<noteq> []" "0 \<le> p" "p \<le> 1"
  shows "\<exists>v. percentile xs p = Inr (Some v)"
proof -
  have "percentile_spec xs p \<noteq> None"
    using assms(1) by (simp add: percentile_spec_def Let_def)
  then show ?thesis
    using percentile_eq_spec[OF assms(2,3), of xs] by auto
qed

subsection \<open>Semideviation and coefficient of variation never raise\<close>

lemma lower_semideviation_total: "lower_semideviation pts = Inr (semideviation_spec pts)"
proof (cases "pts = []")
  case True
  then show ?thesis by (simp add: lower_semideviation_def semideviation_spec_def)
next
  case False
  define mu where "mu = sum_list pts / real (length pts)"
  define B where "B = filter (\<lambda>b. b < mu) pts"
  have n: "real (length pts) \<noteq> 0" using False by simp
  have d1: "py_div (sum_list pts) (real (length pts)) = Inr mu"
    using n by (simp add: py_div_def mu_def)
  show ?thesis
  proof (cases "length B \<le> 1")
    case True
    then show ?thesis
      using False d1 by (simp add: lower_semideviation_def semideviation_spec_def mu_def B_def)
  next
    case gt: False
    define sv where "sv = (\<Sum>b\<leftarrow>B. (mu - b) ^ 2) / real (length B)"
    have "0 \<le> (\<Sum>b\<leftarrow>B. (mu - b) ^ 2)" by (rule sum_list_nonneg) auto
    then have sv0: "0 \<le> sv" by (simp add: sv_def)
    from gt have "length B \<noteq> 0" by linarith
    then have B0: "real (length B) \<noteq> 0" by simp
    have d2: "py_div (\<Sum>b\<leftarrow>B. (mu - b) ^ 2) (real (length B)) = Inr sv"
      using B0 by (simp only: py_div_def sv_def if_False)
    have sq: "py_sqrt sv = Inr (sqrt sv)" using sv0 by (simp add: py_sqrt_def)
    have l: "lower_semideviation pts = Inr (sqrt sv)"
      unfolding lower_semideviation_def Let_def
      using False gt d1 d2 sq by (simp add: B_def[symmetric])
    have r: "semideviation_spec pts = sqrt sv"
      unfolding semideviation_spec_def Let_def
      using False gt by (simp add: mu_def[symmetric] B_def[symmetric] sv_def)
    show ?thesis using l r by simp
  qed
qed

lemma cv_total: "coefficient_of_variation sd m = Inr (if \<bar>m\<bar> > 1 / 1000000000 then sd / m else 0)"
  by (auto simp: coefficient_of_variation_def py_div_def)

subsection \<open>The dictionary operations and the aggregation\<close>

lemma map_of_modify:
  "map_of (modify k f d) k' = (if k' = k then Some (f (getitem d k)) else map_of d k')"
  by (induction d) (auto simp: getitem_def)

lemma getitem_modify:
  "getitem (modify k f d) k' = (if k' = k then f (getitem d k) else getitem d k')"
  by (simp add: getitem_def map_of_modify)

lemma keys_modify:
  "map fst (modify k f d) = (if k \<in> set (map fst d) then map fst d else map fst d @ [k])"
  by (induction d) (force+)

lemma distinct_modify: "distinct (map fst d) \<Longrightarrow> distinct (map fst (modify k f d))"
  by (simp add: keys_modify)

lemma map_of_add_game:
  "map_of (add_game d r) k =
     (if k = player_name r then Some (info_after (getitem d (player_name r)) r) else map_of d k)"
  unfolding add_game_def Let_def info_after_def
  by (simp add: map_of_modify getitem_modify)

lemma getitem_add_game:
  "getitem (add_game d r) k =
     (if k = player_name r then info_after (getitem d k) r else getitem d k)"
  by (simp add: getitem_def map_of_add_game)

lemma keys_add_game:
  "map fst (add_game d r) =
     (if player_name r \<in> set (map fst d) then map fst d else map fst d @ [player_name r])"
  unfolding add_game_def Let_def
  by (simp add: keys_modify)

lemma date_gt_irrefl: "\<not> date_gt a a"
  by (simp add: date_gt_def)

lemma points_aggregate:
  "points (getitem (aggregate d rs) k) =
     points (getitem d k) @ map game_points (filter (\<lambda>r. player_name r = k) rs)"
  by (induction rs arbitrary: d) (auto simp: getitem_add_game info_after_def)

lemma process_rows_aggregate:
  "process_rows fl sp d rows = aggregate d (List.map_filter (parse_row fl sp) rows)"
  by (induction rows arbitrary: d) (auto simp: process_row_def List.map_filter_simps split: option.splits)

lemma aggregate_append: "aggregate d (rs @ rs') = aggregate (aggregate d rs) rs'"
  by (induction rs arbitrary: d) auto

lemma parse_files_aggregate:
  "parse_files fl sp d dir = Inr data \<Longrightarrow> data = aggregate d (valid_records fl sp dir)"
proof (induction dir arbitrary: d)
  case Nil
  then show ?case by simp
next
  case (Cons e dir)
  obtain filename content where e: "e = (filename, content)" by (cases e)
  show ?case
  proof (cases "is_team_file filename")
    case False
    with Cons e show ?thesis by simp
  next
    case True
    show ?thesis
    proof (cases content)
      case (Inl err)
      with Cons.prems e True show ?thesis by simp
    next
      case (Inr rows)
      with Cons.prems e True
      have "parse_files fl sp (process_rows fl sp d rows) dir = Inr data" by simp
      from Cons.IH[OF this] show ?thesis
        using e True Inr by (simp add: aggregate_append process_rows_aggregate)
    qed
  qed
qed

subsection \<open>The example directory, evaluated\<close>

lemmas example_defs = example_dir_def is_team_file_def endswith_def
      process_row_def parse_row_def example_row_def falsy_def example_float_def example_strptime_def
      DATE_FORMAT_def add_game_def getitem_def date_gt_def default_info_def Let_def

lemma example_data: "parse_all_team_files example_float example_strptime example_dir =
  Inr [(''Ann'', \<lparr>points = [5, 10, 15, 20],
          most_recent_date = Some \<lparr>year = 2024, month = 1, day = 5\<rparr>,
          current_team = Some ''ATL''\<rparr>),
      (''Bob'', \<lparr>points = [20],
          most_recent_date = Some \<lparr>year = 2024, month = 1, day = 5\<rparr>,
          current_team = Some ''ATL''\<rparr>)]"
  by (simp add: parse_all_team_files_def example_defs)

lemmas stat_defs = report_def build_row_def py_div_def lower_semideviation_def
     py_sqrt_def coefficient_of_variation_def percentile_def py_index_def Let_def power2_eq_square

lemma example_main: "main example_float example_strptime example_dir =
   Inr [\<lparr>player = ''Bob'', team = Some ''ATL'', mean_pts = 20, std_dev = 0, cv = 0,
         p10 = Some 20, p20 = Some 20, p30 = Some 20, games_played = 1\<rparr>,
        \<lparr>player = ''Ann'', team = Some ''ATL'', mean_pts = 25 / 2, std_dev = sqrt (125 / 4),
         cv = sqrt (125 / 4) / (25 / 2),
         p10 = Some (13 / 2), p20 = Some 8, p30 = Some (19 / 2), games_played = 4\<rparr>]"
  by (simp add: main_def example_data stat_defs)

lemma complete_info_after:
  "complete_info i \<or> most_recent_date i = None \<Longrightarrow> complete_info (info_after i r)"
  by (auto simp: complete_info_def info_after_def)

lemma list_all_map_of:
  "distinct (map fst d) \<Longrightarrow>
     list_all (\<lambda>(k, i). Q i) d = (\<forall>k i. map_of d k = Some i \<longrightarrow> Q i)"
  by (auto simp: list_all_iff)

lemma well_formed_add_game:
  assumes "well_formed d"
  shows "well_formed (add_game d r)"
proof -
  from assms have dist: "distinct (map fst d)"
    by (simp add: well_formed_def)
  from assms have "list_all (\<lambda>(k, i). complete_info i) d"
    by (simp add: well_formed_def)
  then have all: "\<And>k i. map_of d k = Some i \<Longrightarrow> complete_info i"
    by (simp add: list_all_map_of[OF dist])
  have dist': "distinct (map fst (add_game d r))"
    using dist by (simp add: keys_add_game)
  have old: "complete_info (getitem d (player_name r)) \<or> most_recent_date (getitem d (player_name r)) = None"
    using all by (auto simp: getitem_def default_info_def split: option.splits)
  have "complete_info i" if "map_of (add_game d r) k = Some i" for k i
    using that all complete_info_after[OF old, of r]
    by (auto simp: map_of_add_game split: if_splits)
  then show ?thesis
    using dist' by (simp add: well_formed_def list_all_map_of)
qed

lemma well_formed_aggregate: "well_formed d \<Longrightarrow> well_formed (aggregate d rs)"
  by (induction rs arbitrary: d) (simp_all add: well_formed_add_game)

lemma well_formed_empty: "well_formed []"
  by (simp add: well_formed_def)

lemma well_formed_parse:
  "parse_all_team_files fl sp dir = Inr data \<Longrightarrow> well_formed data"
  unfolding parse_all_team_files_def
  by (drule parse_files_aggregate) (simp add: well_formed_aggregate well_formed_empty)



subsection \<open>Building the rows\<close>

lemma build_row_nonempty:
  assumes "points i \<noteq> []"
  shows "\<exists>r. build_row k i = Inr (Some r) \<and> player r = k \<and> team r = current_team i
           \<and> games_played r = length (points i)
           \<and> mean_pts r = sum_list (points i) / real (length (points i))
           \<and> std_dev r = semideviation_spec (points i)
           \<and> p10 r \<noteq> None \<and> p20 r \<noteq> None \<and> p30 r \<noteq> None"
proof -
  have s: "sort (points i) \<noteq> []" using assms by (metis length_sort length_0_conv)
  obtain q10 where q10: "percentile (sort (points i)) (1 / 10) = Inr (Some q10)"
    using percentile_nonempty[OF s, of "1 / 10"] by auto
  obtain q20 where q20: "percentile (sort (points i)) (1 / 5) = Inr (Some q20)"
    using percentile_nonempty[OF s, of "1 / 5"] by auto
  obtain q30 where q30: "percentile (sort (points i)) (3 / 10) = Inr (Some q30)"
    using percentile_nonempty[OF s, of "3 / 10"] by auto
  have d: "py_div (sum_list (points i)) (real (length (points i)))
             = Inr (sum_list (points i) / real (length (points i)))"
    using assms by (simp add: py_div_def)
  show ?thesis
    unfolding build_row_def Let_def
    using assms by (simp add: d lower_semideviation_total cv_total q10 q20 q30)
qed

lemma build_row_empty: "points i = [] \<Longrightarrow> build_row k i = Inr None"
  by (simp add: build_row_def)

lemma build_row_games:
  "build_row k i = Inr (Some r) \<Longrightarrow> points i \<noteq> []"
  using build_row_empty[of i k] by auto

lemma build_rows_result:
  "build_rows d acc = Inr res \<Longrightarrow>
     \<exists>rows. res = acc @ rows \<and>
       (\<forall>r \<in> set rows. \<exists>e \<in> set d. build_row (fst e) (snd e) = Inr (Some r))"
proof (induction d arbitrary: acc)
  case Nil
  then show ?case by simp
next
  case (Cons e d)
  obtain k i where e: "e = (k, i)" by (cases e)
  show ?case
  proof (cases "build_row k i")
    case (Inl err)
    with Cons.prems e show ?thesis by simp
  next
    case (Inr ro)
    show ?thesis
    proof (cases ro)
      case None
      with Cons.prems e Inr have "build_rows d acc = Inr res" by simp
      from Cons.IH[OF this] obtain rows where
        rows: "res = acc @ rows"
          "\<forall>r \<in> set rows. \<exists>e \<in> set d. build_row (fst e) (snd e) = Inr (Some r)"
        by blast
      from rows(2) have "\<forall>r \<in> set rows. \<exists>e' \<in> set (e # d). build_row (fst e') (snd e') = Inr (Some r)"
        by (metis list.set_intros(2))
      with rows(1) show ?thesis by blast
    next
      case (Some r)
      with Cons.prems e Inr have "build_rows d (acc @ [r]) = Inr res" by simp
      from Cons.IH[OF this] obtain rows where
        rows: "res = (acc @ [r]) @ rows"
          "\<forall>r \<in> set rows. \<exists>e \<in> set d. build_row (fst e) (snd e) = Inr (Some r)"
        by blast
      have 1: "res = acc @ (r # rows)" using rows(1) by simp
      have here: "build_row (fst e) (snd e) = Inr (Some r)" using Inr Some e by simp
      have 2: "\<forall>r' \<in> set (r # rows). \<exists>e' \<in> set (e # d). build_row (fst e') (snd e') = Inr (Some r')"
      proof
        fix r' assume "r' \<in> set (r # rows)"
        then consider "r' = r" | "r' \<in> set rows" by auto
        then show "\<exists>e' \<in> set (e # d). build_row (fst e') (snd e') = Inr (Some r')"
        proof cases
          case 1
          with here show ?thesis by (metis list.set_intros(1))
        next
          case 2
          with rows(2) show ?thesis by (metis list.set_intros(2))
        qed
      qed
      from 1 2 show ?thesis by blast
    qed
  qed
qed


lemma main_stages:
  assumes "main fl sp dir = Inr rows"
  shows "\<exists>data built. parse_all_team_files fl sp dir = Inr data
            \<and> build_rows data [] = Inr built \<and> rows = sort_key std_dev built"
  using assms unfolding main_def report_def
  by (auto split: sum.splits)

lemma build_rows_from_empty:
  assumes "build_rows d [] = Inr built" "r \<in> set built"
  shows "\<exists>k i. (k, i) \<in> set d \<and> build_row k i = Inr (Some r)"
proof -
  from build_rows_result[OF assms(1)] obtain rows where
    "built = [] @ rows" "\<forall>r \<in> set rows. \<exists>e \<in> set d. build_row (fst e) (snd e) = Inr (Some r)"
    by blast
  with assms(2) obtain e where "e \<in> set d" "build_row (fst e) (snd e) = Inr (Some r)"
    by auto
  then show ?thesis by (metis prod.collapse)
qed

lemma main_row_origin:
  assumes "main fl sp dir = Inr rows" "r \<in> set rows"
  shows "\<exists>data k i. parse_all_team_files fl sp dir = Inr data \<and> (k, i) \<in> set data
           \<and> build_row k i = Inr (Some r)"
proof -
  from main_stages[OF assms(1)] obtain data built where
    s: "parse_all_team_files fl sp dir = Inr data" "build_rows data [] = Inr built"
       "rows = sort_key std_dev built" by blast
  from assms(2) s(3) have "r \<in> set built" by simp
  from build_rows_from_empty[OF s(2) this] s(1) show ?thesis by blast
qed



lemma build_row_fields:
  assumes "build_row k i = Inr (Some r)"
  shows "points i \<noteq> []" "games_played r = length (points i)" "team r = current_team i"
    "p10 r \<noteq> None" "p20 r \<noteq> None" "p30 r \<noteq> None" "player r = k"
proof -
  show ne: "points i \<noteq> []" by (rule build_row_games[OF assms])
  from build_row_nonempty[OF ne, of k] assms
  show "games_played r = length (points i)" "team r = current_team i"
    "p10 r \<noteq> None" "p20 r \<noteq> None" "p30 r \<noteq> None" "player r = k"
    by auto
qed

subsection \<open>File names\<close>

lemma endswith_suffix: "endswith s suf \<longleftrightarrow> suffix suf s"
proof
  assume "endswith s suf"
  then have "drop (length s - length suf) s = suf" by (simp add: endswith_def)
  then have "s = take (length s - length suf) s @ suf" by (metis append_take_drop_id)
  then show "suffix suf s" by (rule suffixI)
next
  assume "suffix suf s"
  then obtain zs where "s = zs @ suf" by (rule suffixE)
  then show "endswith s suf" by (simp add: endswith_def)
qed

lemma length_three:
  assumes "length xs = 3"
  shows "\<exists>a b c. xs = [a, b, c]"
proof -
  from assms obtain a ys where 1: "xs = a # ys" "length ys = 2" by (cases xs) simp_all
  then obtain b zs where 2: "ys = b # zs" "length zs = 1" by (cases ys) simp_all
  then obtain c where 3: "zs = [c]" by (cases zs) simp_all
  from 1 2 3 show ?thesis by simp
qed

subsection \<open>Arithmetic with the range of a double\<close>


lemma DBL_MAX_below_threshold: "DBL_MAX < overflow_threshold"
  by (simp add: overflow_threshold_def DBL_MAX_def)


lemma two_53_below_threshold: "(2::real) ^ 53 < overflow_threshold"
  by (simp add: overflow_threshold_def)

lemma f_result_in_range: "\<bar>r\<bar> < overflow_threshold \<Longrightarrow> f_result r = Finite r"
  by (auto simp: f_result_def)














lemma percentile_double_run:
  assumes ne: "xs \<noteq> []" and len: "length xs \<le> 2 ^ 53" and q: "0 \<le> q" "q \<le> 1"
  defines "idx \<equiv> real (length xs - 1) * q"
  shows "0 \<le> \<lfloor>idx\<rfloor>" "\<lfloor>idx\<rfloor> \<le> \<lceil>idx\<rceil>" "\<lceil>idx\<rceil> \<le> int (length xs) - 1"
    "percentile_double xs (Finite q) =
       (if \<lfloor>idx\<rfloor> = \<lceil>idx\<rceil> then ([\<lfloor>idx\<rfloor>], Inr (Some (xs ! nat \<lfloor>idx\<rfloor>)))
        else ([\<lfloor>idx\<rfloor>, \<lceil>idx\<rceil>],
              Inr (Some (f_add (xs ! nat \<lfloor>idx\<rfloor>)
                     (f_mul (f_sub (xs ! nat \<lceil>idx\<rceil>) (xs ! nat \<lfloor>idx\<rfloor>))
                            (Finite (idx - real_of_int \<lfloor>idx\<rfloor>)))))))"
proof -
  define m where "m = length xs - 1"
  have n: "length xs = Suc m" using ne by (simp add: m_def)
  have idx: "idx = real m * q" by (simp add: idx_def m_def)
  show lo0: "0 \<le> \<lfloor>idx\<rfloor>" and lohi: "\<lfloor>idx\<rfloor> \<le> \<lceil>idx\<rceil>"
    unfolding idx using rank_bounds[OF q] by blast+
  have him: "\<lceil>idx\<rceil> \<le> int m" unfolding idx using rank_bounds[OF q] by blast
  then show hi1: "\<lceil>idx\<rceil> \<le> int (length xs) - 1" using n by linarith
  have ilo: "py_index xs \<lfloor>idx\<rfloor> = Inr (xs ! nat \<lfloor>idx\<rfloor>)"
  proof (rule py_index_in_range)
    show "0 \<le> \<lfloor>idx\<rfloor>" by (rule lo0)
    show "\<lfloor>idx\<rfloor> < int (length xs)" using lohi him n by linarith
  qed
  have ihi: "py_index xs \<lceil>idx\<rceil> = Inr (xs ! nat \<lceil>idx\<rceil>)"
  proof (rule py_index_in_range)
    show "0 \<le> \<lceil>idx\<rceil>" using lo0 lohi by linarith
    show "\<lceil>idx\<rceil> < int (length xs)" using him n by linarith
  qed
  have idx0: "0 \<le> idx" unfolding idx using q by simp
  have "idx \<le> real m * 1" unfolding idx using q by (intro mult_left_mono) simp_all
  also have "\<dots> \<le> real (length xs)" using n by simp
  also have "\<dots> \<le> 2 ^ 53" using len by (metis of_nat_le_iff of_nat_numeral of_nat_power)
  finally have "idx < overflow_threshold" using two_53_below_threshold by linarith
  with idx0 have residx: "f_result idx = Finite idx" by (intro f_result_in_range) simp
  have index: "f_mul (Finite (real (length xs - 1))) (Finite q) = Finite idx"
    using residx by (simp add: idx_def)
  have fr: "\<bar>idx - real_of_int \<lfloor>idx\<rfloor>\<bar> < overflow_threshold"
  proof -
    have "\<bar>idx - real_of_int \<lfloor>idx\<rfloor>\<bar> \<le> 1" by linarith
    moreover have "(1::real) < overflow_threshold" by (simp add: overflow_threshold_def)
    ultimately show ?thesis by linarith
  qed
  have frac: "f_sub (Finite idx) (Finite (real_of_int \<lfloor>idx\<rfloor>)) = Finite (idx - real_of_int \<lfloor>idx\<rfloor>)"
    using f_result_in_range[OF fr] by (simp add: f_sub_def)
  show "percentile_double xs (Finite q) =
       (if \<lfloor>idx\<rfloor> = \<lceil>idx\<rceil> then ([\<lfloor>idx\<rfloor>], Inr (Some (xs ! nat \<lfloor>idx\<rfloor>)))
        else ([\<lfloor>idx\<rfloor>, \<lceil>idx\<rceil>],
              Inr (Some (f_add (xs ! nat \<lfloor>idx\<rfloor>)
                     (f_mul (f_sub (xs ! nat \<lceil>idx\<rceil>) (xs ! nat \<lfloor>idx\<rfloor>))
                            (Finite (idx - real_of_int \<lfloor>idx\<rfloor>)))))))"
  proof (cases "m = 0")
    case True
    then have one: "length xs = 1" using n by simp
    from True have "idx = 0" by (simp add: idx)
    then show ?thesis
      unfolding percentile_double_def Let_def
      by (simp add: one subscript_def py_index_def)
  next
    case False
    then have n0: "length xs \<noteq> 0" "length xs \<noteq> 1" using n by simp_all
    show ?thesis
      unfolding percentile_double_def Let_def
      by (simp only: n0 if_False index py_floor_def py_ceil_def pyfloat.case sum.case
            subscript_def ilo ihi frac prod.case append_Nil append_Cons)
  qed
qed

lemma percentile_spec_nonempty:
  assumes ne: "ys \<noteq> []" and q: "0 \<le> q" "q \<le> 1"
  defines "idx \<equiv> real (length ys - 1) * q"
  shows "percentile_spec ys q =
           Some (if \<lfloor>idx\<rfloor> = \<lceil>idx\<rceil> then ys ! nat \<lfloor>idx\<rfloor>
                 else ys ! nat \<lfloor>idx\<rfloor>
                      + (ys ! nat \<lceil>idx\<rceil> - ys ! nat \<lfloor>idx\<rfloor>) * (idx - real_of_int \<lfloor>idx\<rfloor>))"
proof -
  define m where "m = length ys - 1"
  have n: "length ys = Suc m" using ne by (simp add: m_def)
  have idx: "idx = real m * q" by (simp add: idx_def m_def)
  have lo0: "0 \<le> \<lfloor>idx\<rfloor>" and lohi: "\<lfloor>idx\<rfloor> \<le> \<lceil>idx\<rceil>"
    unfolding idx using rank_bounds[OF q] by blast+
  show ?thesis
  proof (cases "m = 0")
    case True
    then have "idx = 0" by (simp add: idx)
    then show ?thesis using True n by (simp add: percentile_spec_def)
  next
    case False
    then have n0: "length ys \<noteq> 0" "length ys \<noteq> 1" using n by simp_all
    have ridx: "(real (length ys) - 1) * q = idx" by (simp add: idx n)
    have eq: "(nat \<lfloor>idx\<rfloor> = nat \<lceil>idx\<rceil>) = (\<lfloor>idx\<rfloor> = \<lceil>idx\<rceil>)"
    proof (rule eq_nat_nat_iff)
      show "0 \<le> \<lfloor>idx\<rfloor>" by (rule lo0)
      show "0 \<le> \<lceil>idx\<rceil>" using lo0 lohi by linarith
    qed
    have rlo: "real (nat \<lfloor>idx\<rfloor>) = real_of_int \<lfloor>idx\<rfloor>" using lo0 by simp
    show ?thesis
      unfolding percentile_spec_def Let_def
      by (simp only: n0 if_False ridx eq rlo if_distrib[of Some])
  qed
qed

lemma percentile_double_finite:
  assumes ne: "ys \<noteq> []" and len: "length ys \<le> 2 ^ 53" and q: "0 \<le> q" "q \<le> 1"
    and srt: "sorted ys" and fin: "list_all (\<lambda>y. \<bar>y\<bar> \<le> DBL_MAX) ys"
    and spread: "last ys - hd ys \<le> DBL_MAX"
  shows "\<exists>v. percentile ys q = Inr (Some v)
            \<and> snd (percentile_double (map Finite ys) (Finite q)) = Inr (Some (Finite v))
            \<and> hd ys \<le> v \<and> v \<le> last ys"
proof -
  define idx where "idx = real (length ys - 1) * q"
  define lo where "lo = nat \<lfloor>idx\<rfloor>"
  define hi where "hi = nat \<lceil>idx\<rceil>"
  define t where "t = idx - real_of_int \<lfloor>idx\<rfloor>"
  define v where "v = (if \<lfloor>idx\<rfloor> = \<lceil>idx\<rceil> then ys ! lo else ys ! lo + (ys ! hi - ys ! lo) * t)"
  let ?xs = "map Finite ys"
  have xne: "?xs \<noteq> []" and xlen: "length ?xs \<le> 2 ^ 53" using ne len by simp_all
  have xidx: "real (length ?xs - 1) * q = idx" by (simp add: idx_def)
  note run = percentile_double_run[OF xne xlen q, unfolded xidx]
  have lo0: "0 \<le> \<lfloor>idx\<rfloor>" and lohi: "\<lfloor>idx\<rfloor> \<le> \<lceil>idx\<rceil>"
    and hin: "\<lceil>idx\<rceil> \<le> int (length ys) - 1"
    using run(1,2,3) by simp_all
  have lo_hi: "lo \<le> hi" unfolding lo_def hi_def using lohi by linarith
  have hi_len: "hi < length ys" unfolding hi_def using hin lo0 lohi ne by (cases ys) auto
  have lo_len: "lo < length ys" using lo_hi hi_len by linarith
  have a0: "ys ! 0 \<le> ys ! lo" by (rule sorted_nth_mono[OF srt _ lo_len]) simp
  have ab: "ys ! lo \<le> ys ! hi" by (rule sorted_nth_mono[OF srt lo_hi hi_len])
  have bl: "ys ! hi \<le> ys ! (length ys - 1)"
    using hi_len by (intro sorted_nth_mono[OF srt]) simp_all
  have hd: "hd ys = ys ! 0" using ne by (simp add: hd_conv_nth)
  have last: "last ys = ys ! (length ys - 1)" using ne by (simp add: last_conv_nth)
  have t0: "0 \<le> t" and t1: "t \<le> 1" unfolding t_def by linarith+
  have fina: "\<bar>ys ! lo\<bar> \<le> DBL_MAX" and finb: "\<bar>ys ! hi\<bar> \<le> DBL_MAX"
    using fin lo_len hi_len by (simp_all add: list_all_length)
  have d0: "0 \<le> ys ! hi - ys ! lo" using ab by simp
  have d1: "ys ! hi - ys ! lo \<le> DBL_MAX" using a0 bl spread hd last by linarith
  have sub: "f_sub (Finite (ys ! hi)) (Finite (ys ! lo)) = Finite (ys ! hi - ys ! lo)"
  proof -
    have "\<bar>ys ! hi + - (ys ! lo)\<bar> < overflow_threshold"
      using d0 d1 DBL_MAX_below_threshold by linarith
    from f_result_in_range[OF this] show ?thesis by (simp add: f_sub_def)
  qed
  have m0: "0 \<le> (ys ! hi - ys ! lo) * t" using d0 t0 by simp
  have m1: "(ys ! hi - ys ! lo) * t \<le> ys ! hi - ys ! lo"
    using mult_left_mono[OF t1 d0] by simp
  have mul: "f_mul (Finite (ys ! hi - ys ! lo)) (Finite t) = Finite ((ys ! hi - ys ! lo) * t)"
  proof -
    have "\<bar>(ys ! hi - ys ! lo) * t\<bar> < overflow_threshold"
      using m0 m1 d1 DBL_MAX_below_threshold by linarith
    from f_result_in_range[OF this] show ?thesis by simp
  qed
  have between: "ys ! lo \<le> ys ! lo + (ys ! hi - ys ! lo) * t"
    "ys ! lo + (ys ! hi - ys ! lo) * t \<le> ys ! hi"
    using interp_between[OF ab t0 t1] by simp_all
  have add: "f_add (Finite (ys ! lo)) (Finite ((ys ! hi - ys ! lo) * t))
               = Finite (ys ! lo + (ys ! hi - ys ! lo) * t)"
  proof -
    have "\<bar>ys ! lo + (ys ! hi - ys ! lo) * t\<bar> < overflow_threshold"
      using between fina finb DBL_MAX_below_threshold by linarith
    from f_result_in_range[OF this] show ?thesis by simp
  qed
  have xlo: "?xs ! nat \<lfloor>idx\<rfloor> = Finite (ys ! lo)" using lo_len by (simp add: lo_def)
  have xhi: "?xs ! nat \<lceil>idx\<rceil> = Finite (ys ! hi)" using hi_len by (simp add: hi_def)
  have res: "snd (percentile_double ?xs (Finite q)) = Inr (Some (Finite v))"
    unfolding run(4) xlo xhi t_def[symmetric] sub mul add v_def by simp
  have "percentile_spec ys q = Some v"
    unfolding percentile_spec_nonempty[OF ne q] idx_def[symmetric] v_def lo_def hi_def t_def ..
  then have exact: "percentile ys q = Inr (Some v)"
    using percentile_eq_spec[OF q, of ys] by simp
  have "hd ys \<le> v \<and> v \<le> last ys"
    unfolding hd last v_def using a0 ab bl between by auto
  with exact res show ?thesis by blast
qed

section \<open>The claims\<close>






text \<open>
  \<^bold>\<open>C3.\<close> Folding one valid record appends its points to its player's sequence whatever
  its date, and replaces the stored date and team together exactly when no date is stored
  or the record's date is strictly later; a record with the stored date leaves team and
  date as they are, and no other player's value changes. Folded from the empty
  dictionary, a player's points are the points of that player's valid records in the
  order met, so the number of games is the number of those records; the result of
  \<^const>\<open>parse_all_team_files\<close> is this fold over the valid records of the selected files.
  Two records of one player dated 01/01/2024 (team A) and 01/05/2024 (team B) give team
  B, both points and two games.
\<close>

theorem aggregation_appends_and_keeps_latest:
  "(let old = getitem d (player_name r);
        new = getitem (add_game d r) (player_name r);
        newer = (case most_recent_date old of None \<Rightarrow> True | Some c \<Rightarrow> date_gt (game_date r) c)
    in points new = points old @ [game_points r]
     \<and> most_recent_date new = (if newer then Some (game_date r) else most_recent_date old)
     \<and> current_team new = (if newer then Some (team_str r) else current_team old)
     \<and> (most_recent_date old = Some (game_date r) \<longrightarrow>
          current_team new = current_team old \<and> most_recent_date new = most_recent_date old))
   \<and> (k \<noteq> player_name r \<longrightarrow> map_of (add_game d r) k = map_of d k)
   \<and> points (getitem (aggregate [] rs) k) = map game_points (filter (\<lambda>r. player_name r = k) rs)
   \<and> (parse_all_team_files fl sp dir = Inr data \<longrightarrow>
        data = aggregate [] (valid_records fl sp dir)
        \<and> length (points (getitem data k))
            = length (filter (\<lambda>r. player_name r = k) (valid_records fl sp dir)))
   \<and> aggregate []
        [\<lparr>player_name = who, game_points = x,
          game_date = \<lparr>year = 2024, month = 1, day = 1\<rparr>, team_str = ''A''\<rparr>,
         \<lparr>player_name = who, game_points = y,
          game_date = \<lparr>year = 2024, month = 1, day = 5\<rparr>, team_str = ''B''\<rparr>]
      = [(who, \<lparr>points = [x, y],
                most_recent_date = Some \<lparr>year = 2024, month = 1, day = 5\<rparr>,
                current_team = Some ''B''\<rparr>)]"
proof -
  have step: "(let old = getitem d (player_name r);
        new = getitem (add_game d r) (player_name r);
        newer = (case most_recent_date old of None \<Rightarrow> True | Some c \<Rightarrow> date_gt (game_date r) c)
    in points new = points old @ [game_points r]
     \<and> most_recent_date new = (if newer then Some (game_date r) else most_recent_date old)
     \<and> current_team new = (if newer then Some (team_str r) else current_team old)
     \<and> (most_recent_date old = Some (game_date r) \<longrightarrow>
          current_team new = current_team old \<and> most_recent_date new = most_recent_date old))"
    by (simp add: Let_def getitem_add_game info_after_def date_gt_irrefl)
  have other: "k \<noteq> player_name r \<longrightarrow> map_of (add_game d r) k = map_of d k"
    by (simp add: map_of_add_game)
  have pts: "points (getitem (aggregate [] rs) k)
               = map game_points (filter (\<lambda>r. player_name r = k) rs)"
    using points_aggregate[of "[]" rs k] by (simp add: getitem_def default_info_def)
  have whole: "parse_all_team_files fl sp dir = Inr data \<longrightarrow>
        data = aggregate [] (valid_records fl sp dir)
        \<and> length (points (getitem data k))
            = length (filter (\<lambda>r. player_name r = k) (valid_records fl sp dir))"
  proof
    assume "parse_all_team_files fl sp dir = Inr data"
    then have eq: "data = aggregate [] (valid_records fl sp dir)"
      unfolding parse_all_team_files_def by (rule parse_files_aggregate)
    have "points (getitem data k)
            = map game_points (filter (\<lambda>r. player_name r = k) (valid_records fl sp dir))"
      unfolding eq using points_aggregate[of "[]" "valid_records fl sp dir" k]
      by (simp add: getitem_def default_info_def)
    then have "length (points (getitem data k))
            = length (filter (\<lambda>r. player_name r = k) (valid_records fl sp dir))" by simp
    with eq show "data = aggregate [] (valid_records fl sp dir)
        \<and> length (points (getitem data k))
            = length (filter (\<lambda>r. player_name r = k) (valid_records fl sp dir))" by simp
  qed
  have ex: "aggregate []
        [\<lparr>player_name = who, game_points = x,
          game_date = \<lparr>year = 2024, month = 1, day = 1\<rparr>, team_str = ''A''\<rparr>,
         \<lparr>player_name = who, game_points = y,
          game_date = \<lparr>year = 2024, month = 1, day = 5\<rparr>, team_str = ''B''\<rparr>]
      = [(who, \<lparr>points = [x, y],
                most_recent_date = Some \<lparr>year = 2024, month = 1, day = 5\<rparr>,
                current_team = Some ''B''\<rparr>)]"
    by (simp add: add_game_def getitem_def default_info_def date_gt_def Let_def)
  from step other pts whole ex show ?thesis by (intro conjI)
qed

theorem aggregation_appends_and_keeps_latest_witness:
  "parse_all_team_files example_float example_strptime example_dir
     = Inr [(''Ann'', \<lparr>points = [5, 10, 15, 20],
                      most_recent_date = Some \<lparr>year = 2024, month = 1, day = 5\<rparr>,
                      current_team = Some ''ATL''\<rparr>),
            (''Bob'', \<lparr>points = [20],
                      most_recent_date = Some \<lparr>year = 2024, month = 1, day = 5\<rparr>,
                      current_team = Some ''ATL''\<rparr>)]
   \<and> length (filter (\<lambda>r. player_name r = ''Ann'')
               (valid_records example_float example_strptime example_dir)) = 4"
proof -
  let ?data = "[(''Ann'', \<lparr>points = [5, 10, 15, 20],
                      most_recent_date = Some \<lparr>year = 2024, month = 1, day = 5\<rparr>,
                      current_team = Some ''ATL''\<rparr>),
            (''Bob'', \<lparr>points = [20],
                      most_recent_date = Some \<lparr>year = 2024, month = 1, day = 5\<rparr>,
                      current_team = Some ''ATL''\<rparr>)]"
  have h: "parse_all_team_files example_float example_strptime example_dir = Inr ?data"
    by (rule example_data)
  have "length (points (getitem ?data ''Ann'')) = 4" by (simp add: getitem_def)
  with h aggregation_appends_and_keeps_latest
         [of _ _ "''Ann''" _ example_float example_strptime example_dir ?data]
  show ?thesis by simp
qed

text \<open>
  \<^bold>\<open>C4.\<close> A file name is selected if and only if it has length 7 and ends with
  \<^verbatim>\<open>.txt\<close>, that is, if and only if it is three characters of any kind followed by
  \<^verbatim>\<open>.txt\<close>: \<^verbatim>\<open>ATLX.txt\<close> is rejected, \<^verbatim>\<open>ATL.txt\<close> is selected, and so is a name
  whose three characters are no letters.
\<close>

theorem is_team_file_iff:
  "(is_team_file f \<longleftrightarrow> length f = 7 \<and> suffix ''.txt'' f)
   \<and> (is_team_file f \<longleftrightarrow> (\<exists>a b c. f = [a, b, c] @ ''.txt''))
   \<and> \<not> is_team_file ''ATLX.txt''
   \<and> is_team_file ''ATL.txt''
   \<and> is_team_file ''1 $.txt''"
proof -
  have 1: "is_team_file f \<longleftrightarrow> length f = 7 \<and> suffix ''.txt'' f"
    by (auto simp: is_team_file_def endswith_suffix)
  have 2: "is_team_file f \<longleftrightarrow> (\<exists>a b c. f = [a, b, c] @ ''.txt'')"
  proof
    assume "is_team_file f"
    with 1 have len: "length f = 7" and "suffix ''.txt'' f" by simp_all
    then obtain zs where zs: "f = zs @ ''.txt''" by (auto elim: suffixE)
    with len have "length zs = 3" by simp
    from length_three[OF this] zs show "\<exists>a b c. f = [a, b, c] @ ''.txt''" by blast
  next
    assume "\<exists>a b c. f = [a, b, c] @ ''.txt''"
    then show "is_team_file f" by (auto simp: is_team_file_def endswith_def)
  qed
  have 3: "\<not> is_team_file ''ATLX.txt''" "is_team_file ''ATL.txt''" "is_team_file ''1 $.txt''"
    by (simp_all add: is_team_file_def endswith_def)
  from 1 2 3 show ?thesis by blast
qed

theorem is_team_file_iff_witness:
  "is_team_file ''BOS.txt'' \<and> \<not> is_team_file ''BOS.csv'' \<and> \<not> is_team_file ''.txt''"
proof -
  have a: "''BOS.txt'' = [CHR ''B'', CHR ''O'', CHR ''S''] @ ''.txt''" by simp
  have b: "\<not> suffix ''.txt'' ''BOS.csv''" by (simp add: suffix_to_prefix)
  have c: "length ''.txt'' \<noteq> 7" by simp
  from a is_team_file_iff[of "''BOS.txt''"] have 1: "is_team_file ''BOS.txt''" by blast
  from b is_team_file_iff[of "''BOS.csv''"] have 2: "\<not> is_team_file ''BOS.csv''" by blast
  from c is_team_file_iff[of "''.txt''"] have 3: "\<not> is_team_file ''.txt''" by blast
  from 1 2 3 show ?thesis by blast
qed

text \<open>
  \<^bold>\<open>C5.\<close> The rows that \<^const>\<open>main\<close> returns are sorted by ascending \<^const>\<open>std_dev\<close>:
  each row's value is at most the next row's. They are a permutation of the rows built
  in the loop over the players, and the sort is stable: the rows with any one value of
  \<^const>\<open>std_dev\<close> stand in the order in which the loop built them.
\<close>

theorem report_sorted_stable:
  assumes "main fl sp dir = Inr rows"
  shows "sorted (map std_dev rows)
       \<and> (\<forall>n. Suc n < length rows \<longrightarrow> std_dev (rows ! n) \<le> std_dev (rows ! Suc n))
       \<and> (\<exists>data built. parse_all_team_files fl sp dir = Inr data
             \<and> build_rows data [] = Inr built
             \<and> mset rows = mset built
             \<and> (\<forall>v. filter (\<lambda>r. std_dev r = v) rows = filter (\<lambda>r. std_dev r = v) built))"
proof -
  from main_stages[OF assms] obtain data built where
    s: "parse_all_team_files fl sp dir = Inr data" "build_rows data [] = Inr built"
       "rows = sort_key std_dev built" by blast
  have 1: "sorted (map std_dev rows)" unfolding s(3) by (rule sorted_sort_key)
  have 2: "\<forall>n. Suc n < length rows \<longrightarrow> std_dev (rows ! n) \<le> std_dev (rows ! Suc n)"
  proof (intro allI impI)
    fix n assume n: "Suc n < length rows"
    then have "Suc n < length (map std_dev rows)" by simp
    with 1 have "map std_dev rows ! n \<le> map std_dev rows ! Suc n"
      by (simp only: sorted_iff_nth_Suc)
    with n show "std_dev (rows ! n) \<le> std_dev (rows ! Suc n)" by simp
  qed
  have 3: "mset rows = mset built" unfolding s(3) by simp
  have 4: "\<forall>v. filter (\<lambda>r. std_dev r = v) rows = filter (\<lambda>r. std_dev r = v) built"
    unfolding s(3) by (simp add: sort_key_stable)
  from 1 2 3 4 s(1,2) show ?thesis by blast
qed

theorem report_sorted_stable_witness:
  "main example_float example_strptime example_dir =
     Inr [\<lparr>player = ''Bob'', team = Some ''ATL'', mean_pts = 20, std_dev = 0, cv = 0,
           p10 = Some 20, p20 = Some 20, p30 = Some 20, games_played = 1\<rparr>,
          \<lparr>player = ''Ann'', team = Some ''ATL'', mean_pts = 25 / 2, std_dev = sqrt (125 / 4),
           cv = sqrt (125 / 4) / (25 / 2),
           p10 = Some (13 / 2), p20 = Some 8, p30 = Some (19 / 2), games_played = 4\<rparr>]
   \<and> sorted [0, sqrt (125 / 4)]
   \<and> map fst (aggregate [] (valid_records example_float example_strptime example_dir))
       = [''Ann'', ''Bob'']"
proof -
  let ?rows = "[\<lparr>player = ''Bob'', team = Some ''ATL'', mean_pts = 20, std_dev = 0, cv = 0,
           p10 = Some 20, p20 = Some 20, p30 = Some 20, games_played = 1\<rparr>,
          \<lparr>player = ''Ann'', team = Some ''ATL'', mean_pts = 25 / 2, std_dev = sqrt (125 / 4),
           cv = sqrt (125 / 4) / (25 / 2),
           p10 = Some (13 / 2), p20 = Some 8, p30 = Some (19 / 2), games_played = 4\<rparr>]"
  have h: "main example_float example_strptime example_dir = Inr ?rows"
    by (rule example_main)
  from report_sorted_stable[OF h] have "sorted (map std_dev ?rows)" by blast
  then have s: "sorted [0, sqrt (125 / 4)]" by simp
  have "aggregate [] (valid_records example_float example_strptime example_dir)
          = [(''Ann'', \<lparr>points = [5, 10, 15, 20],
                      most_recent_date = Some \<lparr>year = 2024, month = 1, day = 5\<rparr>,
                      current_team = Some ''ATL''\<rparr>),
            (''Bob'', \<lparr>points = [20],
                      most_recent_date = Some \<lparr>year = 2024, month = 1, day = 5\<rparr>,
                      current_team = Some ''ATL''\<rparr>)]"
    using parse_files_aggregate[OF example_data[unfolded parse_all_team_files_def]] by simp
  then have "map fst (aggregate [] (valid_records example_float example_strptime example_dir))
       = [''Ann'', ''Bob'']" by simp
  with h s show ?thesis by blast
qed

text \<open>
  \<^bold>\<open>C6.\<close> A row in which one of the four required cells is missing or empty, or whose
  points \<^verbatim>\<open>float\<close> rejects, or whose date \<^verbatim>\<open>strptime\<close> rejects under \<^const>\<open>DATE_FORMAT\<close>,
  yields no record and leaves the dictionary exactly as it was; a file with such a row
  gives the same dictionary as the file without it. In particular no points are appended
  for a row whose points parse and whose date does not.
\<close>

theorem invalid_row_skipped:
  assumes "falsy (row ''PLAYER'') \<or> falsy (row ''PTS'') \<or> falsy (row ''GAME DATE'')
           \<or> falsy (row ''TEAM'')
           \<or> (\<exists>s. row ''PTS'' = Some s \<and> fl s = None)
           \<or> (\<exists>s. row ''GAME DATE'' = Some s \<and> sp s DATE_FORMAT = None)"
  shows "parse_row fl sp row = None \<and> process_row fl sp d row = d
       \<and> process_rows fl sp d (before @ row # after) = process_rows fl sp d (before @ after)"
proof -
  have p: "parse_row fl sp row = None"
    using assms unfolding parse_row_def Let_def
    by (auto split: option.splits)
  then have q: "\<And>d. process_row fl sp d row = d" by (simp add: process_row_def)
  have "process_rows fl sp d (before @ row # after) = process_rows fl sp d (before @ after)"
    by (induction before arbitrary: d) (simp_all add: q)
  with p q show ?thesis by simp
qed

theorem invalid_row_skipped_witness:
  "example_float ''15'' = Some 15
   \<and> example_strptime ''2024-01-05'' DATE_FORMAT = None
   \<and> parse_row example_float example_strptime
        (example_row ''Bob'' ''15'' ''2024-01-05'' ''ATL'') = None
   \<and> process_row example_float example_strptime
        [(''Bob'', \<lparr>points = [20], most_recent_date = Some \<lparr>year = 2024, month = 1, day = 5\<rparr>,
                    current_team = Some ''ATL''\<rparr>)]
        (example_row ''Bob'' ''15'' ''2024-01-05'' ''ATL'')
      = [(''Bob'', \<lparr>points = [20], most_recent_date = Some \<lparr>year = 2024, month = 1, day = 5\<rparr>,
                    current_team = Some ''ATL''\<rparr>)]"
proof -
  let ?row = "example_row ''Bob'' ''15'' ''2024-01-05'' ''ATL''"
  let ?d = "[(''Bob'', \<lparr>points = [20], most_recent_date = Some \<lparr>year = 2024, month = 1, day = 5\<rparr>,
                    current_team = Some ''ATL''\<rparr>)]"
  have f: "example_float ''15'' = Some 15" by (simp add: example_float_def)
  have g: "example_strptime ''2024-01-05'' DATE_FORMAT = None"
    by (simp add: example_strptime_def DATE_FORMAT_def)
  have "?row ''GAME DATE'' = Some ''2024-01-05''" by (simp add: example_row_def)
  with g have h: "falsy (?row ''PLAYER'') \<or> falsy (?row ''PTS'') \<or> falsy (?row ''GAME DATE'')
      \<or> falsy (?row ''TEAM'')
      \<or> (\<exists>s. ?row ''PTS'' = Some s \<and> example_float s = None)
      \<or> (\<exists>s. ?row ''GAME DATE'' = Some s \<and> example_strptime s DATE_FORMAT = None)" by blast
  have "parse_row example_float example_strptime ?row = None
       \<and> process_row example_float example_strptime ?d ?row = ?d
       \<and> process_rows example_float example_strptime ?d ([] @ ?row # [])
          = process_rows example_float example_strptime ?d ([] @ [])"
    using h by (rule invalid_row_skipped[where row = ?row and fl = example_float
                     and sp = example_strptime and d = ?d and before = "[]" and after = "[]"])
  with f g show ?thesis by blast
qed

text \<open>
  \<^bold>\<open>C7.\<close> Line 123 never raises: the coefficient of variation is the quotient of
  semideviation and mean when the mean exceeds \<open>10\<^sup>-\<^sup>9\<close> in absolute value, and 0
  otherwise, so the division is not evaluated with a zero divisor. Every row built, and
  every row \<^const>\<open>main\<close> returns, carries this value.
\<close>

theorem cv_guarded:
  "coefficient_of_variation sd m = Inr (if \<bar>m\<bar> > 1 / 1000000000 then sd / m else 0)
   \<and> (build_row name info = Inr (Some r) \<longrightarrow>
        cv r = (if \<bar>mean_pts r\<bar> > 1 / 1000000000 then std_dev r / mean_pts r else 0))
   \<and> (main fl sp dir = Inr rows \<longrightarrow>
        list_all (\<lambda>r. cv r = (if \<bar>mean_pts r\<bar> > 1 / 1000000000
                               then std_dev r / mean_pts r else 0)) rows)"
proof -
  have row: "cv r = (if \<bar>mean_pts r\<bar> > 1 / 1000000000 then std_dev r / mean_pts r else 0)"
    if "build_row name info = Inr (Some r)" for name info r
    using that unfolding build_row_def Let_def
    by (auto simp: cv_total split: if_splits sum.splits)
  have "list_all (\<lambda>r. cv r = (if \<bar>mean_pts r\<bar> > 1 / 1000000000
                               then std_dev r / mean_pts r else 0)) rows"
    if m: "main fl sp dir = Inr rows"
    unfolding list_all_iff
  proof
    fix r assume "r \<in> set rows"
    from main_row_origin[OF m this] obtain k i where "build_row k i = Inr (Some r)" by blast
    then show "cv r = (if \<bar>mean_pts r\<bar> > 1 / 1000000000 then std_dev r / mean_pts r else 0)"
      by (rule row)
  qed
  with row[of name info r] cv_total[of sd m] show ?thesis by blast
qed

theorem cv_guarded_witness:
  "build_row ''Zed'' \<lparr>points = [- 3, - 1, 4], most_recent_date = None, current_team = None\<rparr>
     = Inr (Some \<lparr>player = ''Zed'', team = None, mean_pts = 0, std_dev = sqrt 5, cv = 0,
                  p10 = Some (- 13 / 5), p20 = Some (- 11 / 5), p30 = Some (- 9 / 5),
                  games_played = 3\<rparr>)
   \<and> coefficient_of_variation (sqrt 5) 0 = Inr 0
   \<and> coefficient_of_variation 3 2 = Inr (3 / 2)"
proof -
  let ?i = "\<lparr>points = [- 3, - 1, 4], most_recent_date = None, current_team = None\<rparr>"
  let ?r = "\<lparr>player = ''Zed'', team = None, mean_pts = 0, std_dev = sqrt 5, cv = 0,
                  p10 = Some (- 13 / 5), p20 = Some (- 11 / 5), p30 = Some (- 9 / 5),
                  games_played = 3\<rparr>"
  have c: "\<lceil>1 / 5 :: real\<rceil> = 1" by (rule ceiling_unique) simp_all
  have h: "build_row ''Zed'' ?i = Inr (Some ?r)"
    by (simp add: c build_row_def py_div_def lower_semideviation_def
     py_sqrt_def coefficient_of_variation_def percentile_def py_index_def Let_def power2_eq_square)
  from cv_guarded[of "sqrt 5" 0] have a: "coefficient_of_variation (sqrt 5) 0 = Inr 0" by simp
  from cv_guarded[of 3 2] have b: "coefficient_of_variation 3 2 = Inr (3 / 2)" by simp
  from cv_guarded[of _ _ "''Zed''" ?i ?r] h
  have "cv ?r = (if \<bar>mean_pts ?r\<bar> > 1 / 1000000000 then std_dev ?r / mean_pts ?r else 0)"
    by blast
  with h a b show ?thesis by blast
qed



text \<open>
  \<^bold>\<open>C9.\<close> As stated, the claim fails in its last part: for a sorted list whose last
  and first element differ by more than a double can hold, line 86 returns an infinity.
  What holds, with the range of a double, for a non-empty list of at most \<open>2\<^sup>5\<^sup>3\<close>
  elements and a fraction \<open>q\<close> in \<open>[0, 1]\<close>: the subscripts that
  \<^const>\<open>percentile_double\<close> evaluates are \<open>\<lfloor>(n - 1) * q\<rfloor>\<close> alone when floor and ceiling
  agree, and \<open>\<lfloor>(n - 1) * q\<rfloor>\<close> followed by \<open>\<lceil>(n - 1) * q\<rceil>\<close> otherwise; they satisfy
  \<open>0 \<le> \<lfloor>(n - 1) * q\<rfloor> \<le> \<lceil>(n - 1) * q\<rceil> \<le> n - 1\<close>, so every one is in range (none raises
  \<^const>\<open>IndexError\<close>, none counts from the end), and a value is returned. When the list is
  sorted, its elements are finite doubles and the last minus the first does not
  overflow, the value is the one \<^const>\<open>percentile\<close> computes and lies between the first
  and the last element.
\<close>

theorem percentile_double_subscripts_in_bounds:
  assumes "xs \<noteq> []" "length xs \<le> 2 ^ 53" "0 \<le> q" "q \<le> 1"
  shows "0 \<le> \<lfloor>real (length xs - 1) * q\<rfloor>
       \<and> \<lfloor>real (length xs - 1) * q\<rfloor> \<le> \<lceil>real (length xs - 1) * q\<rceil>
       \<and> \<lceil>real (length xs - 1) * q\<rceil> \<le> int (length xs) - 1
       \<and> fst (percentile_double xs (Finite q))
           = (if \<lfloor>real (length xs - 1) * q\<rfloor> = \<lceil>real (length xs - 1) * q\<rceil>
              then [\<lfloor>real (length xs - 1) * q\<rfloor>]
              else [\<lfloor>real (length xs - 1) * q\<rfloor>, \<lceil>real (length xs - 1) * q\<rceil>])
       \<and> list_all (\<lambda>i. 0 \<le> i \<and> i < int (length xs)) (fst (percentile_double xs (Finite q)))
       \<and> (\<exists>v. snd (percentile_double xs (Finite q)) = Inr (Some v))
       \<and> (\<forall>ys. xs = map Finite ys \<and> sorted ys \<and> list_all (\<lambda>y. \<bar>y\<bar> \<le> DBL_MAX) ys
                 \<and> last ys - hd ys \<le> DBL_MAX \<longrightarrow>
             (\<exists>v. percentile ys q = Inr (Some v)
                \<and> snd (percentile_double xs (Finite q)) = Inr (Some (Finite v))
                \<and> hd ys \<le> v \<and> v \<le> last ys))"
proof -
  let ?lo = "\<lfloor>real (length xs - 1) * q\<rfloor>" and ?hi = "\<lceil>real (length xs - 1) * q\<rceil>"
  note run = percentile_double_run[OF assms]
  have tr: "fst (percentile_double xs (Finite q)) = (if ?lo = ?hi then [?lo] else [?lo, ?hi])"
    unfolding run(4) by simp
  have hilt: "?hi < int (length xs)" using run(3) by linarith
  have lolt: "?lo < int (length xs)" using run(2) hilt by linarith
  have hi0: "0 \<le> ?hi" using run(1,2) by linarith
  have inb: "list_all (\<lambda>i. 0 \<le> i \<and> i < int (length xs)) (fst (percentile_double xs (Finite q)))"
  proof (cases "?lo = ?hi")
    case True
    have "list_all (\<lambda>i. 0 \<le> i \<and> i < int (length xs)) [?lo]"
      using run(1) lolt by (simp only: list.pred_inject list_all_iff list.set) blast
    with True show ?thesis unfolding tr by simp
  next
    case False
    have "list_all (\<lambda>i. 0 \<le> i \<and> i < int (length xs)) [?lo, ?hi]"
      using run(1) hi0 lolt hilt by (simp only: list.pred_inject list_all_iff list.set) blast
    with False show ?thesis unfolding tr by (simp only: if_False)
  qed
  have val: "\<exists>v. snd (percentile_double xs (Finite q)) = Inr (Some v)"
    unfolding run(4) by simp
  have fin: "\<forall>ys. xs = map Finite ys \<and> sorted ys \<and> list_all (\<lambda>y. \<bar>y\<bar> \<le> DBL_MAX) ys
                 \<and> last ys - hd ys \<le> DBL_MAX \<longrightarrow>
             (\<exists>v. percentile ys q = Inr (Some v)
                \<and> snd (percentile_double xs (Finite q)) = Inr (Some (Finite v))
                \<and> hd ys \<le> v \<and> v \<le> last ys)"
  proof (intro allI impI)
    fix ys
    assume h: "xs = map Finite ys \<and> sorted ys \<and> list_all (\<lambda>y. \<bar>y\<bar> \<le> DBL_MAX) ys
                 \<and> last ys - hd ys \<le> DBL_MAX"
    then have ne: "ys \<noteq> []" and len: "length ys \<le> 2 ^ 53" using assms(1,2) by auto
    from h have s: "sorted ys" and f: "list_all (\<lambda>y. \<bar>y\<bar> \<le> DBL_MAX) ys"
      and sp: "last ys - hd ys \<le> DBL_MAX" by simp_all
    from percentile_double_finite[OF ne len assms(3,4) s f sp] h
    show "\<exists>v. percentile ys q = Inr (Some v)
                \<and> snd (percentile_double xs (Finite q)) = Inr (Some (Finite v))
                \<and> hd ys \<le> v \<and> v \<le> last ys" by simp
  qed
  from run(1,2,3) tr inb val fin show ?thesis by (intro conjI)
qed

theorem percentile_double_subscripts_in_bounds_witness:
  "map Finite [10, 20, 30, 40] \<noteq> [] \<and> length (map Finite [10, 20, 30, 40 :: real]) \<le> 2 ^ 53
   \<and> (0::real) \<le> 1 / 10 \<and> (1 / 10 :: real) \<le> 1
   \<and> sorted [10, 20, 30, 40 :: real]
   \<and> list_all (\<lambda>y. \<bar>y\<bar> \<le> DBL_MAX) [10, 20, 30, 40]
   \<and> last [10, 20, 30, 40 :: real] - hd [10, 20, 30, 40] \<le> DBL_MAX
   \<and> fst (percentile_double (map Finite [10, 20, 30, 40]) (Finite (1 / 10))) = [0, 1]
   \<and> snd (percentile_double (map Finite [10, 20, 30, 40]) (Finite (1 / 10)))
       = Inr (Some (Finite 13))"
proof -
  let ?ys = "[10, 20, 30, 40 :: real]"
  have h0: "map Finite ?ys \<noteq> []" by simp
  have h1: "length (map Finite ?ys) \<le> 2 ^ 53" by simp
  have h2: "(0::real) \<le> 1 / 10" and h3: "(1 / 10 :: real) \<le> 1" by simp_all
  have s: "sorted ?ys" by simp
  have f: "list_all (\<lambda>y. \<bar>y\<bar> \<le> DBL_MAX) ?ys" by (simp add: DBL_MAX_def)
  have sp: "last ?ys - hd ?ys \<le> DBL_MAX" by (simp add: DBL_MAX_def)
  note t = percentile_double_subscripts_in_bounds[OF h0 h1 h2 h3]
  from t have tr: "fst (percentile_double (map Finite ?ys) (Finite (1 / 10))) = [0, 1]"
    by simp
  from t s f sp obtain v where
    v: "percentile ?ys (1 / 10) = Inr (Some v)"
       "snd (percentile_double (map Finite ?ys) (Finite (1 / 10))) = Inr (Some (Finite v))"
    by blast
  have "percentile ?ys (1 / 10) = Inr (Some 13)"
    by (simp add: percentile_def py_index_def Let_def)
  with v have "snd (percentile_double (map Finite ?ys) (Finite (1 / 10))) = Inr (Some (Finite 13))"
    by simp
  with h0 h1 h2 h3 s f sp tr show ?thesis by (intro conjI)
qed

text \<open>
  The value bound of the claim as stated fails at the sorted list \<open>[-1e308, 1e308]\<close> and
  \<open>p = 0.1\<close>: the difference of the two elements overflows to infinity, and so does the
  result, which is not at most the last element.
\<close>

theorem percentile_value_bound_counterexample:
  "sorted [- (10 ^ 308), 10 ^ 308 :: real]
   \<and> \<bar>10 ^ 308 :: real\<bar> \<le> DBL_MAX
   \<and> snd (percentile_double [Finite (- (10 ^ 308)), Finite (10 ^ 308)] (Finite (1 / 10)))
        = Inr (Some PosInf)
   \<and> \<not> f_le PosInf (Finite (10 ^ 308))"
proof -
  have c: "\<lceil>1 / 10 :: real\<rceil> = 1" by (rule ceiling_unique) simp_all
  show ?thesis
    by (simp add: c percentile_double_def subscript_def py_index_def py_floor_def py_ceil_def
        f_sub_def f_result_def overflow_threshold_def DBL_MAX_def Let_def)
qed

text \<open>
  \<^bold>\<open>C10.\<close> No row that \<^const>\<open>main\<close> returns has \<open>None\<close> as team or as one of the three
  percentiles: every value in the dictionary has points and a team, because a record
  folded for a player without a stored date always stores its team.
\<close>

theorem rows_never_null:
  assumes "main fl sp dir = Inr rows"
  shows "list_all (\<lambda>r. team r \<noteq> None \<and> p10 r \<noteq> None \<and> p20 r \<noteq> None \<and> p30 r \<noteq> None) rows
       \<and> (\<exists>data. parse_all_team_files fl sp dir = Inr data
             \<and> list_all (\<lambda>(k, i). points i \<noteq> [] \<and> current_team i \<noteq> None) data)
       \<and> (most_recent_date (getitem d (player_name g)) = None \<longrightarrow>
            current_team (getitem (add_game d g) (player_name g)) = Some (team_str g))"
proof -
  from main_stages[OF assms] obtain data where
    data: "parse_all_team_files fl sp dir = Inr data" by blast
  have wf: "well_formed data" by (rule well_formed_parse[OF data])
  then have inv: "list_all (\<lambda>(k, i). points i \<noteq> [] \<and> current_team i \<noteq> None) data"
    by (auto simp: well_formed_def complete_info_def list_all_iff)
  have "team r \<noteq> None \<and> p10 r \<noteq> None \<and> p20 r \<noteq> None \<and> p30 r \<noteq> None" if "r \<in> set rows" for r
  proof -
    from main_row_origin[OF assms that] data obtain k i where
      ki: "(k, i) \<in> set data" "build_row k i = Inr (Some r)" by auto
    from ki(1) inv have "current_team i \<noteq> None" by (auto simp: list_all_iff)
    with build_row_fields[OF ki(2)] show ?thesis by simp
  qed
  then have 1: "list_all (\<lambda>r. team r \<noteq> None \<and> p10 r \<noteq> None \<and> p20 r \<noteq> None \<and> p30 r \<noteq> None) rows"
    by (simp add: list_all_iff)
  have 3: "most_recent_date (getitem d (player_name g)) = None \<longrightarrow>
            current_team (getitem (add_game d g) (player_name g)) = Some (team_str g)"
    by (simp add: getitem_add_game info_after_def)
  from 1 data inv 3 show ?thesis by blast
qed

theorem rows_never_null_witness:
  "main example_float example_strptime example_dir =
     Inr [\<lparr>player = ''Bob'', team = Some ''ATL'', mean_pts = 20, std_dev = 0, cv = 0,
           p10 = Some 20, p20 = Some 20, p30 = Some 20, games_played = 1\<rparr>,
          \<lparr>player = ''Ann'', team = Some ''ATL'', mean_pts = 25 / 2, std_dev = sqrt (125 / 4),
           cv = sqrt (125 / 4) / (25 / 2),
           p10 = Some (13 / 2), p20 = Some 8, p30 = Some (19 / 2), games_played = 4\<rparr>]
   \<and> list_all (\<lambda>r. team r \<noteq> None \<and> p10 r \<noteq> None \<and> p20 r \<noteq> None \<and> p30 r \<noteq> None)
        [\<lparr>player = ''Bob'', team = Some ''ATL'', mean_pts = 20, std_dev = 0, cv = 0,
           p10 = Some 20, p20 = Some 20, p30 = Some 20, games_played = 1\<rparr>,
          \<lparr>player = ''Ann'', team = Some ''ATL'', mean_pts = 25 / 2, std_dev = sqrt (125 / 4),
           cv = sqrt (125 / 4) / (25 / 2),
           p10 = Some (13 / 2), p20 = Some 8, p30 = Some (19 / 2), games_played = 4\<rparr>]"
proof -
  let ?rows = "[\<lparr>player = ''Bob'', team = Some ''ATL'', mean_pts = 20, std_dev = 0, cv = 0,
           p10 = Some 20, p20 = Some 20, p30 = Some 20, games_played = 1\<rparr>,
          \<lparr>player = ''Ann'', team = Some ''ATL'', mean_pts = 25 / 2, std_dev = sqrt (125 / 4),
           cv = sqrt (125 / 4) / (25 / 2),
           p10 = Some (13 / 2), p20 = Some 8, p30 = Some (19 / 2), games_played = 4\<rparr>]"
  have h: "main example_float example_strptime example_dir = Inr ?rows"
    by (rule example_main)
  from rows_never_null[OF h]
  have "list_all (\<lambda>r. team r \<noteq> None \<and> p10 r \<noteq> None \<and> p20 r \<noteq> None \<and> p30 r \<noteq> None) ?rows"
    by blast
  with h show ?thesis by blast
qed

end
